theory Spec2Isabelle
  imports Main
begin

section \<open>Python values used by \<^verbatim>\<open>ipa_import.py\<close>\<close>

text \<open>
  The import file is opened with \<^verbatim>\<open>encoding='latin-1'\<close>, so every character of an
  import value is one code point in the range 0..255. A \<^typ>\<open>char\<close> is read as that
  code point (\<^term>\<open>of_char c :: nat\<close>), and a Python \<^verbatim>\<open>str\<close> is a \<^typ>\<open>string\<close>.
  Values reported by the directory are taken in the same range.

  A \<^verbatim>\<open>dict\<close> is an association list in insertion order with pairwise different keys.
  A \<^verbatim>\<open>set\<close> is a list without duplicates; Python does not fix the iteration order of
  a set, the model iterates in list order.
\<close>

subsection \<open>Characters\<close>

definition code :: "char \<Rightarrow> nat" where
  "code c = of_char c"

definition isspace :: "char \<Rightarrow> bool" where
  \<comment> \<open>\<^verbatim>\<open>str.isspace\<close> on the code points below 256\<close>
  "isspace c = (let n = code c in
     (9 \<le> n \<and> n \<le> 13) \<or> (28 \<le> n \<and> n \<le> 32) \<or> n = 133 \<or> n = 160)"

definition lower_char :: "char \<Rightarrow> char" where
  \<comment> \<open>\<^verbatim>\<open>str.lower\<close> on one code point below 256: A..Z and the capital letters
      U+00C0..U+00DE (U+00D7 is the multiplication sign) move up by 32\<close>
  "lower_char c = (let n = code c in
     if (65 \<le> n \<and> n \<le> 90) \<or> (192 \<le> n \<and> n \<le> 222 \<and> n \<noteq> 215)
     then char_of (n + 32) else c)"

definition lower :: "string \<Rightarrow> string" where
  "lower s = map lower_char s"

subsection \<open>Strings\<close>

definition strip_chars :: "char list \<Rightarrow> string \<Rightarrow> string" where
  \<comment> \<open>\<^verbatim>\<open>s.strip(chars)\<close>\<close>
  "strip_chars cs s =
     rev (dropWhile (\<lambda>c. c \<in> set cs) (rev (dropWhile (\<lambda>c. c \<in> set cs) s)))"

definition strip :: "string \<Rightarrow> string" where
  \<comment> \<open>\<^verbatim>\<open>s.strip()\<close>\<close>
  "strip s = rev (dropWhile isspace (rev (dropWhile isspace s)))"

fun split_ws_from :: "string \<Rightarrow> string \<Rightarrow> string list" where
  \<comment> \<open>\<^verbatim>\<open>s.split()\<close>; the first argument is the word being read, reversed\<close>
  "split_ws_from w [] = (if w = [] then [] else [rev w])"
| "split_ws_from w (c # cs) =
     (if isspace c then (if w = [] then split_ws_from [] cs else rev w # split_ws_from [] cs)
      else split_ws_from (c # w) cs)"

definition split_ws :: "string \<Rightarrow> string list" where
  "split_ws s = split_ws_from [] s"

fun split_from :: "char \<Rightarrow> string \<Rightarrow> string \<Rightarrow> string list" where
  \<comment> \<open>\<^verbatim>\<open>s.split(sep)\<close> for a separator of one character\<close>
  "split_from sep w [] = [rev w]"
| "split_from sep w (c # cs) =
     (if c = sep then rev w # split_from sep [] cs else split_from sep (c # w) cs)"

definition split :: "char \<Rightarrow> string \<Rightarrow> string list" where
  "split sep s = split_from sep [] s"

fun join :: "string \<Rightarrow> string list \<Rightarrow> string" where
  \<comment> \<open>\<^verbatim>\<open>sep.join(words)\<close>\<close>
  "join sep [] = []"
| "join sep [w] = w"
| "join sep (w # v # ws) = w @ sep @ join sep (v # ws)"

definition replace :: "char \<Rightarrow> string \<Rightarrow> string \<Rightarrow> string" where
  \<comment> \<open>\<^verbatim>\<open>s.replace(old, new)\<close> for \<^verbatim>\<open>old\<close> of one character\<close>
  "replace old new s = concat (map (\<lambda>c. if c = old then new else [c]) s)"

subsection \<open>Dictionaries and sets\<close>

type_synonym ('k, 'v) dict = "('k \<times> 'v) list"

fun dict_set :: "'k \<Rightarrow> 'v \<Rightarrow> ('k, 'v) dict \<Rightarrow> ('k, 'v) dict" where
  \<comment> \<open>\<^verbatim>\<open>d[k] = v\<close>\<close>
  "dict_set k v [] = [(k, v)]"
| "dict_set k v ((k', v') # d) =
     (if k' = k then (k', v) # d else (k', v') # dict_set k v d)"

fun dict_append :: "'k \<Rightarrow> 'v \<Rightarrow> ('k, 'v list) dict \<Rightarrow> ('k, 'v list) dict" where
  \<comment> \<open>\<^verbatim>\<open>d[k].append(v)\<close> on a \<^verbatim>\<open>defaultdict(list)\<close>\<close>
  "dict_append k v [] = [(k, [v])]"
| "dict_append k v ((k', l) # d) =
     (if k' = k then (k', l @ [v]) # d else (k', l) # dict_append k v d)"

definition dict_update :: "('k, 'v) dict \<Rightarrow> ('k \<times> 'v) list \<Rightarrow> ('k, 'v) dict" where
  \<comment> \<open>\<^verbatim>\<open>d.update(pairs)\<close>\<close>
  "dict_update d kvs = foldl (\<lambda>d (k, v). dict_set k v d) d kvs"

definition dict_get :: "('k, string) dict \<Rightarrow> 'k \<Rightarrow> string" where
  \<comment> \<open>\<^verbatim>\<open>d.get(k, '')\<close>\<close>
  "dict_get d k = (case map_of d k of None \<Rightarrow> [] | Some v \<Rightarrow> v)"

definition keys :: "('k, 'v) dict \<Rightarrow> 'k set" where
  "keys d = fst ` set d"

definition set_of :: "'a list \<Rightarrow> 'a list" where
  \<comment> \<open>\<^verbatim>\<open>set(xs)\<close>\<close>
  "set_of xs = remdups xs"

definition set_union :: "'a list \<Rightarrow> 'a list \<Rightarrow> 'a list" where
  \<comment> \<open>\<^verbatim>\<open>a | b\<close>\<close>
  "set_union a b = a @ filter (\<lambda>x. x \<notin> set a) b"

definition set_diff :: "'a list \<Rightarrow> 'a list \<Rightarrow> 'a list" where
  \<comment> \<open>\<^verbatim>\<open>a - b\<close>\<close>
  "set_diff a b = filter (\<lambda>x. x \<notin> set b) a"

section \<open>Configuration\<close>

definition DEFAULT_GROUPS :: "string list" where
  "DEFAULT_GROUPS = [''ipausers'']"

definition GROUP_SEP :: char where
  "GROUP_SEP = CHR ''/''"

definition IPA_CMDLINE_MAP :: "(string, string) dict" where
  "IPA_CMDLINE_MAP =
     [(''first_name'', ''first''),
      (''last_name'', ''last''),
      (''email_address'', ''email''),
      (''telephone_number'', ''phone''),
      (''mobile_telephone_number'', ''mobile'')]"

section \<open>Import entries\<close>

text \<open>
  An entry of the import batch is the dictionary \<^verbatim>\<open>read_csv_file\<close> yields, with one value
  for every key of \<^verbatim>\<open>CSV_MAP\<close>. The value under \<^verbatim>\<open>member_of_groups\<close> is a string until
  \<^verbatim>\<open>fix_csv_group_names\<close> replaces it by a set, hence the type parameter.
\<close>

record 'g entry =
  member_of_groups :: 'g
  user_login :: string
  first_name :: string
  last_name :: string
  email_address :: string
  telephone_number :: string
  mobile_telephone_number :: string

subsection \<open>\<^verbatim>\<open>fix_csv_group_names\<close>\<close>

definition nfkd_ascii_char :: "char \<Rightarrow> string" where
  \<comment> \<open>the ASCII code points of the NFKD decomposition of one code point below 256
      (Unicode character database): what
      \<^verbatim>\<open>unicodedata.normalize('NFKD', c).encode('ascii', 'ignore').decode('ascii')\<close> keeps\<close>
  "nfkd_ascii_char c = (let n = code c in
     if n < 128 then [c]
     else if n \<in> {160, 168, 175, 180, 184} then '' ''
     else if n = 170 then ''a''
     else if n = 178 then ''2''
     else if n = 179 then ''3''
     else if n = 185 then ''1''
     else if n = 186 then ''o''
     else if n = 188 then ''14''
     else if n = 189 then ''12''
     else if n = 190 then ''34''
     else if 192 \<le> n \<and> n \<le> 197 then ''A''
     else if n = 199 then ''C''
     else if 200 \<le> n \<and> n \<le> 203 then ''E''
     else if 204 \<le> n \<and> n \<le> 207 then ''I''
     else if n = 209 then ''N''
     else if 210 \<le> n \<and> n \<le> 214 then ''O''
     else if 217 \<le> n \<and> n \<le> 220 then ''U''
     else if n = 221 then ''Y''
     else if 224 \<le> n \<and> n \<le> 229 then ''a''
     else if n = 231 then ''c''
     else if 232 \<le> n \<and> n \<le> 235 then ''e''
     else if 236 \<le> n \<and> n \<le> 239 then ''i''
     else if n = 241 then ''n''
     else if 242 \<le> n \<and> n \<le> 246 then ''o''
     else if 249 \<le> n \<and> n \<le> 252 then ''u''
     else if n = 253 \<or> n = 255 then ''y''
     else [])"

definition nfkd_ascii :: "string \<Rightarrow> string" where
  "nfkd_ascii s = concat (map nfkd_ascii_char s)"

definition groupname_legal :: "char \<Rightarrow> bool" where
  \<comment> \<open>the characters \<^verbatim>\<open>_groupname_strip_re = [^A-Za-z0-9_/-]\<close> leaves in place\<close>
  "groupname_legal c = (let n = code c in
     (65 \<le> n \<and> n \<le> 90) \<or> (97 \<le> n \<and> n \<le> 122) \<or> (48 \<le> n \<and> n \<le> 57)
     \<or> c = CHR ''_'' \<or> c = CHR ''/'' \<or> c = CHR ''-'')"

definition original_group_name :: "string \<Rightarrow> string" where
  "original_group_name raw = strip_chars ('' '' @ [GROUP_SEP]) raw"

definition replace_umlauts :: "string \<Rightarrow> string" where
  \<comment> \<open>the loop over the pairs of an umlaut (U+00E4, U+00F6, U+00FC, in this order) and
      its replacement (ae, oe, ue); the replacements are applied one after the other\<close>
  "replace_umlauts s =
     replace (CHR 0xFC) ''ue'' (replace (CHR 0xF6) ''oe'' (replace (CHR 0xE4) ''ae'' s))"

definition group_name :: "string \<Rightarrow> string" where
  \<comment> \<open>the value of \<^verbatim>\<open>group_name\<close> before it is split, from \<^verbatim>\<open>original_group_name\<close>\<close>
  "group_name orig =
     filter groupname_legal
       (nfkd_ascii (replace_umlauts (lower (join ''_'' (split_ws orig)))))"

definition group_names :: "string \<Rightarrow> string list" where
  "group_names orig = split GROUP_SEP (group_name orig)"

definition fix_entry :: "string entry \<Rightarrow> string list entry" where
  \<comment> \<open>what one pass of the loop stores under \<^verbatim>\<open>member_of_groups\<close>\<close>
  "fix_entry e =
     \<lparr>member_of_groups =
        set_of (filter (\<lambda>g. g \<noteq> []) (group_names (original_group_name (member_of_groups e)))),
      user_login = user_login e,
      first_name = first_name e,
      last_name = last_name e,
      email_address = email_address e,
      telephone_number = telephone_number e,
      mobile_telephone_number = mobile_telephone_number e\<rparr>"

definition entry_descriptions :: "string entry \<Rightarrow> (string \<times> string) list" where
  \<comment> \<open>\<^verbatim>\<open>zip(group_names, original_group_name.split(GROUP_SEP))\<close>\<close>
  "entry_descriptions e =
     (let orig = original_group_name (member_of_groups e)
      in zip (group_names orig) (split GROUP_SEP orig))"

fun fix_csv_group_names_from ::
  "(string, string) dict \<Rightarrow> string entry list
     \<Rightarrow> string list entry list \<times> (string, string) dict" where
  "fix_csv_group_names_from group_descriptions [] = ([], group_descriptions)"
| "fix_csv_group_names_from group_descriptions (e # entries) =
     (let (es, d) = fix_csv_group_names_from
                      (dict_update group_descriptions (entry_descriptions e)) entries
      in (fix_entry e # es, d))"

definition fix_csv_group_names ::
  "string entry list \<Rightarrow> string list entry list \<times> (string, string) dict" where
  \<comment> \<open>the entries as the function leaves them, and the dictionary it returns\<close>
  "fix_csv_group_names entries = fix_csv_group_names_from [] entries"

subsection \<open>\<^verbatim>\<open>fix_csv_emails\<close> and \<^verbatim>\<open>fix_csv_zero_entries\<close>\<close>

definition fix_email :: "string \<Rightarrow> string" where
  "fix_email email =
     (if CHR '';'' \<in> set email then hd (split (CHR '';'') email) else email)"

definition fix_csv_emails :: "'g entry list \<Rightarrow> 'g entry list" where
  "fix_csv_emails entries =
     map (\<lambda>e. e\<lparr>email_address := fix_email (email_address e)\<rparr>) entries"

definition fix_zero :: "string \<Rightarrow> string" where
  "fix_zero v = (if strip v = ''0'' then [] else v)"

definition fix_csv_zero_entries :: "'g entry list \<Rightarrow> 'g entry list" where
  \<comment> \<open>with the default \<^verbatim>\<open>fields\<close>\<close>
  "fix_csv_zero_entries entries =
     map (\<lambda>e. e\<lparr>email_address := fix_zero (email_address e),
               telephone_number := fix_zero (telephone_number e),
               mobile_telephone_number := fix_zero (mobile_telephone_number e)\<rparr>) entries"

definition entry_get :: "'g entry \<Rightarrow> string \<Rightarrow> string" where
  \<comment> \<open>\<^verbatim>\<open>new.get(key, '')\<close> for a key whose value is a string\<close>
  "entry_get e key =
     (if key = ''user_login'' then user_login e
      else if key = ''first_name'' then first_name e
      else if key = ''last_name'' then last_name e
      else if key = ''email_address'' then email_address e
      else if key = ''telephone_number'' then telephone_number e
      else if key = ''mobile_telephone_number'' then mobile_telephone_number e
      else [])"

section \<open>Directory entries\<close>

text \<open>
  The external commands are parameters of the model. \<^verbatim>\<open>user_show\<close> stands for
  \<^verbatim>\<open>parse_freeipa_output(subprocess.check_output(['ipa', 'user-show', '--all', username]))\<close>:
  the parsed dictionary, or the exception raised. \<^verbatim>\<open>group_show\<close> and \<^verbatim>\<open>run\<close> stand for
  \<^verbatim>\<open>subprocess.call\<close>: the exit status of the command, or the exception raised when the
  command cannot be started.
\<close>

datatype error = CalledProcessError | OSError | ValueError | UnicodeDecodeError

text \<open>
  A directory entry after \<^verbatim>\<open>fix_ipa_groups\<close>: the strings under the keys other than
  \<^verbatim>\<open>member_of_groups\<close>, and the set under \<^verbatim>\<open>member_of_groups\<close> when that key is present.
\<close>

record ipa_entry =
  ipa_fields :: "(string, string) dict"
  ipa_groups :: "string list option"

definition nonempty :: "ipa_entry \<Rightarrow> bool" where
  \<comment> \<open>the truth value of the dictionary in \<^verbatim>\<open>if old:\<close>\<close>
  "nonempty old = (ipa_fields old \<noteq> [] \<or> ipa_groups old \<noteq> None)"

definition query_user :: "(string \<Rightarrow> error + (string, string) dict) \<Rightarrow> string
    \<Rightarrow> error + (string, string) dict" where
  \<comment> \<open>one pass of the loop of \<^verbatim>\<open>query_ipa\<close>\<close>
  "query_user user_show username =
     (case user_show username of
        Inl e \<Rightarrow> (if e = CalledProcessError then Inr [] else Inl e)
      | Inr d \<Rightarrow> Inr d)"

fun query_ipa :: "(string \<Rightarrow> error + (string, string) dict) \<Rightarrow> string list
    \<Rightarrow> error + (string, string) dict list" where
  "query_ipa user_show [] = Inr []"
| "query_ipa user_show (username # usernames) =
     (case query_user user_show username of
        Inl e \<Rightarrow> Inl e
      | Inr d \<Rightarrow> (case query_ipa user_show usernames of
                    Inl e \<Rightarrow> Inl e
                  | Inr ds \<Rightarrow> Inr (d # ds)))"

fun split_comma_space :: "string \<Rightarrow> string \<Rightarrow> string list" where
  \<comment> \<open>\<^verbatim>\<open>s.split(', ')\<close>; the first argument is the segment being read, reversed\<close>
  "split_comma_space w [] = [rev w]"
| "split_comma_space w [c] = [rev (c # w)]"
| "split_comma_space w (c # d # cs) =
     (if c = CHR '','' \<and> d = CHR '' '' then rev w # split_comma_space [] cs
      else split_comma_space (c # w) (d # cs))"

definition fix_ipa_entry :: "(string, string) dict \<Rightarrow> ipa_entry" where
  "fix_ipa_entry d =
     \<lparr>ipa_fields = filter (\<lambda>(k, v). k \<noteq> ''member_of_groups'') d,
      ipa_groups =
        (case map_of d ''member_of_groups'' of
           None \<Rightarrow> None
         | Some v \<Rightarrow> Some (set_of (filter (\<lambda>g. g \<noteq> []) (split_comma_space [] v))))\<rparr>"

definition fix_ipa_groups :: "(string, string) dict list \<Rightarrow> ipa_entry list" where
  "fix_ipa_groups entries = map fix_ipa_entry entries"

section \<open>\<^verbatim>\<open>find_user_differences\<close>\<close>

record user_changes =
  user_mod :: "(string, string list) dict"
  user_add :: "(string, string list) dict"
  group_add_member :: "(string, string list) dict"
  group_remove_member :: "(string, string list) dict"

definition no_user_changes :: user_changes where
  "no_user_changes =
     \<lparr>user_mod = [], user_add = [], group_add_member = [], group_remove_member = []\<rparr>"

definition assignment :: "string \<Rightarrow> string \<Rightarrow> string" where
  \<comment> \<open>\<^verbatim>\<open>'--{0}={1}'.format(cmdline_key, val)\<close>\<close>
  "assignment cmdline_key val = ''--'' @ cmdline_key @ ''='' @ val"

definition users_arg :: "string \<Rightarrow> string" where
  \<comment> \<open>\<^verbatim>\<open>'--users={}'.format(user)\<close>\<close>
  "users_arg user = ''--users='' @ user"

definition differs :: "string list entry \<Rightarrow> ipa_entry \<Rightarrow> string \<Rightarrow> bool" where
  \<comment> \<open>\<^verbatim>\<open>new_val != old_val\<close> for one key\<close>
  "differs new old key =
     (strip (entry_get new key) \<noteq> strip (dict_get (ipa_fields old) key))"

definition mod_args :: "string list entry \<Rightarrow> ipa_entry \<Rightarrow> string list" where
  \<comment> \<open>\<^verbatim>\<open>user_changes\<close> of the \<^verbatim>\<open>if old:\<close> branch\<close>
  "mod_args new old =
     map (\<lambda>(key, cmdline_key). assignment cmdline_key (strip (entry_get new key)))
       (filter (\<lambda>(key, cmdline_key). differs new old key) IPA_CMDLINE_MAP)"

definition add_args :: "string list entry \<Rightarrow> string list" where
  \<comment> \<open>the list stored under \<^verbatim>\<open>user-add\<close>\<close>
  "add_args new =
     map (\<lambda>(key, cmdline_key). assignment cmdline_key (strip (entry_get new key)))
       IPA_CMDLINE_MAP"

definition old_groups :: "ipa_entry \<Rightarrow> string list" where
  "old_groups old =
     set_union (case ipa_groups old of None \<Rightarrow> [] | Some gs \<Rightarrow> gs) DEFAULT_GROUPS"

definition new_groups :: "string list entry \<Rightarrow> string list" where
  "new_groups new = set_union (member_of_groups new) DEFAULT_GROUPS"

definition diff_attributes :: "user_changes \<Rightarrow> string list entry \<Rightarrow> ipa_entry \<Rightarrow> user_changes" where
  "diff_attributes changes new old =
     (if nonempty old
      then (if mod_args new old \<noteq> []
            then changes\<lparr>user_mod := dict_set (user_login new) (mod_args new old) (user_mod changes)\<rparr>
            else changes)
      else changes\<lparr>user_add := dict_set (user_login new) (add_args new) (user_add changes)\<rparr>)"

definition add_members :: "string \<Rightarrow> string list \<Rightarrow> user_changes \<Rightarrow> user_changes" where
  "add_members user groups changes =
     changes\<lparr>group_add_member :=
       foldl (\<lambda>d grp. dict_append grp (users_arg user) d) (group_add_member changes) groups\<rparr>"

definition remove_members :: "string \<Rightarrow> string list \<Rightarrow> user_changes \<Rightarrow> user_changes" where
  "remove_members user groups changes =
     changes\<lparr>group_remove_member :=
       foldl (\<lambda>d grp. dict_append grp (users_arg user) d) (group_remove_member changes) groups\<rparr>"

definition diff_user :: "user_changes \<Rightarrow> string list entry \<times> ipa_entry \<Rightarrow> user_changes" where
  \<comment> \<open>the body of the loop over \<^verbatim>\<open>zip(csv_entries, ipa_entries)\<close>\<close>
  "diff_user changes p =
     (case p of (new, old) \<Rightarrow>
        remove_members (user_login new) (set_diff (old_groups old) (new_groups new))
          (add_members (user_login new) (set_diff (new_groups new) (old_groups old))
             (diff_attributes changes new old)))"

definition find_user_differences ::
  "string list entry list \<Rightarrow> ipa_entry list \<Rightarrow> user_changes" where
  "find_user_differences csv_entries ipa_entries =
     foldl diff_user no_user_changes (zip csv_entries ipa_entries)"

section \<open>\<^verbatim>\<open>find_group_changes\<close>\<close>

definition group_args :: "(string, string) dict \<Rightarrow> string \<Rightarrow> string list" where
  "group_args group_descriptions grp =
     (case map_of group_descriptions grp of
        Some desc \<Rightarrow> [''--desc='' @ desc]
      | None \<Rightarrow> [])"

fun find_group_changes_from ::
  "(string \<Rightarrow> error + int) \<Rightarrow> (string, string) dict \<Rightarrow> (string, string list) dict
     \<Rightarrow> string list \<Rightarrow> error + (string, string list) dict" where
  \<comment> \<open>the loop over the keys of \<^verbatim>\<open>user_changes['group-add-member']\<close>\<close>
  "find_group_changes_from group_show group_descriptions changes [] = Inr changes"
| "find_group_changes_from group_show group_descriptions changes (grp # groups) =
     (case group_show grp of
        Inl e \<Rightarrow> Inl e
      | Inr status \<Rightarrow>
          find_group_changes_from group_show group_descriptions
            (if status \<noteq> 0
             then dict_set grp (group_args group_descriptions grp) changes
             else changes)
            groups)"

definition find_group_changes ::
  "(string \<Rightarrow> error + int) \<Rightarrow> user_changes \<Rightarrow> (string, string) dict
     \<Rightarrow> error + (string, string list) dict" where
  "find_group_changes group_show changes group_descriptions =
     find_group_changes_from group_show group_descriptions []
       (map fst (group_add_member changes))"

section \<open>The plan and \<^verbatim>\<open>commit_changes\<close>\<close>

record change_plan = user_changes +
  group_add :: "(string, string list) dict"







section \<open>\<^verbatim>\<open>main\<close>\<close>

definition with_group_add :: "user_changes \<Rightarrow> (string, string list) dict \<Rightarrow> change_plan" where
  \<comment> \<open>\<^verbatim>\<open>changes['group-add'] = ...\<close>\<close>
  "with_group_add changes ga =
     \<lparr>user_mod = user_mod changes, user_add = user_add changes,
      group_add_member = group_add_member changes,
      group_remove_member = group_remove_member changes,
      group_add = ga\<rparr>"

definition plan_for ::
  "(string \<Rightarrow> error + int) \<Rightarrow> (string, string) dict \<Rightarrow> string list entry list
     \<Rightarrow> ipa_entry list \<Rightarrow> error + change_plan" where
  \<comment> \<open>lines 241 and 242 of \<^verbatim>\<open>main\<close>\<close>
  "plan_for group_show group_descriptions csv_entries ipa_entries =
     (let changes = find_user_differences csv_entries ipa_entries
      in case find_group_changes group_show changes group_descriptions of
           Inl e \<Rightarrow> Inl e
         | Inr ga \<Rightarrow> Inr (with_group_add changes ga))"

definition main_changes ::
  "(string \<Rightarrow> error + (string, string) dict) \<Rightarrow> (string \<Rightarrow> error + int)
     \<Rightarrow> string entry list \<Rightarrow> error + change_plan" where
  \<comment> \<open>\<^verbatim>\<open>changes\<close> as \<^verbatim>\<open>main\<close> has it after line 242, from the rows of the file\<close>
  "main_changes user_show group_show rows =
     (case fix_csv_group_names rows of (entries, group_descriptions) \<Rightarrow>
        (let csv_entries = fix_csv_zero_entries (fix_csv_emails entries)
         in case query_ipa user_show (map user_login csv_entries) of
              Inl e \<Rightarrow> Inl e
            | Inr ds \<Rightarrow> plan_for group_show group_descriptions csv_entries (fix_ipa_groups ds)))"

definition no_changes :: "change_plan \<Rightarrow> bool" where
  \<comment> \<open>\<^verbatim>\<open>not any(changes.values())\<close>\<close>
  "no_changes changes =
     (user_mod changes = [] \<and> user_add changes = [] \<and> group_add_member changes = []
      \<and> group_remove_member changes = [] \<and> group_add changes = [])"

section \<open>Notions used to state the properties\<close>


definition directory_groups :: "ipa_entry \<Rightarrow> string list" where
  \<comment> \<open>\<^verbatim>\<open>old.get('member_of_groups', set())\<close>\<close>
  "directory_groups old = (case ipa_groups old of None \<Rightarrow> [] | Some gs \<Rightarrow> gs)"

definition members :: "(string, string list) dict \<Rightarrow> (string \<times> string) set" where
  \<comment> \<open>the pairs of a key and an element of the list stored under it\<close>
  "members d = {(k, a). \<exists>l. (k, l) \<in> set d \<and> a \<in> set l}"

definition is_sep :: "char \<Rightarrow> bool" where
  \<comment> \<open>the character is \<^term>\<open>GROUP_SEP\<close>\<close>
  "is_sep c = (c = CHR ''/'')"

definition to_add :: "string list entry \<Rightarrow> ipa_entry \<Rightarrow> string set" where
  \<comment> \<open>\<^verbatim>\<open>new_groups - old_groups\<close> of a pair of entries, as a set\<close>
  "to_add new old =
     (set (member_of_groups new) \<union> set DEFAULT_GROUPS)
       - (set (directory_groups old) \<union> set DEFAULT_GROUPS)"

definition to_remove :: "string list entry \<Rightarrow> ipa_entry \<Rightarrow> string set" where
  \<comment> \<open>\<^verbatim>\<open>old_groups - new_groups\<close> of a pair of entries, as a set\<close>
  "to_remove new old =
     (set (directory_groups old) \<union> set DEFAULT_GROUPS)
       - (set (member_of_groups new) \<union> set DEFAULT_GROUPS)"

definition carries :: "string list entry \<Rightarrow> ipa_entry \<Rightarrow> bool" where
  \<comment> \<open>the directory entry of a user to whom the plan of an import entry has been applied:
      the user exists, every tracked attribute holds the trimmed import value, and the
      groups are the imported ones, with or without the default groups\<close>
  "carries new old =
     (nonempty old
      \<and> list_all (\<lambda>(key, cmdline_key).
            dict_get (ipa_fields old) key = strip (entry_get new key)) IPA_CMDLINE_MAP
      \<and> set (member_of_groups new) \<subseteq> set (directory_groups old)
      \<and> set (directory_groups old) \<subseteq> set (member_of_groups new) \<union> set DEFAULT_GROUPS)"

definition csv_entries_of :: "string entry list \<Rightarrow> string list entry list" where
  \<comment> \<open>\<^verbatim>\<open>csv_entries\<close> as \<^verbatim>\<open>main\<close> passes it to \<^verbatim>\<open>find_user_differences\<close>\<close>
  "csv_entries_of rows = fix_csv_zero_entries (fix_csv_emails (fst (fix_csv_group_names rows)))"

subsection \<open>Example values\<close>

definition jdoe_row :: "string entry" where
  \<comment> \<open>the groups are B(U+00FC)ro/Team, with U+00FC for the umlaut\<close>
  "jdoe_row =
     \<lparr>member_of_groups = ''B'' @ [CHR 0xFC] @ ''ro/Team'', user_login = ''jdoe'',
      first_name = ''Jane'', last_name = ''Doe'', email_address = ''0'',
      telephone_number = [], mobile_telephone_number = []\<rparr>"

definition jdoe_plan :: change_plan where
  \<comment> \<open>the plan for \<^term>\<open>jdoe_row\<close> in a directory without users and groups\<close>
  "jdoe_plan =
     \<lparr>user_mod = [],
      user_add = [(''jdoe'', [''--first=Jane'', ''--last=Doe'', ''--email='',
                             ''--phone='', ''--mobile=''])],
      group_add_member = [(''buero'', [''--users=jdoe'']), (''team'', [''--users=jdoe''])],
      group_remove_member = [],
      group_add = [(''buero'', [''--desc=B'' @ [CHR 0xFC] @ ''ro'']),
                   (''team'', [''--desc=Team''])]\<rparr>"

definition asmith :: "string list entry" where
  "asmith =
     \<lparr>member_of_groups = [''team''], user_login = ''asmith'',
      first_name = ''Ann'', last_name = ''Smith'', email_address = ''ann@example.org'',
      telephone_number = [], mobile_telephone_number = []\<rparr>"

definition bjones :: "string list entry" where
  "bjones =
     \<lparr>member_of_groups = [], user_login = ''bjones'',
      first_name = ''Bob'', last_name = ''Jones'', email_address = [],
      telephone_number = [], mobile_telephone_number = []\<rparr>"

definition not_found :: ipa_entry where
  \<comment> \<open>the empty dictionary \<^verbatim>\<open>query_ipa\<close> yields for an unknown user\<close>
  "not_found = \<lparr>ipa_fields = [], ipa_groups = None\<rparr>"

definition fresh_directory :: "string \<Rightarrow> error + (string, string) dict" where
  \<comment> \<open>a directory without users: \<^verbatim>\<open>ipa user-show\<close> exits with a non-zero status\<close>
  "fresh_directory username = Inl CalledProcessError"

definition no_such_group :: "string \<Rightarrow> error + int" where
  \<comment> \<open>a directory without groups: \<^verbatim>\<open>ipa group-show\<close> exits with status 2\<close>
  "no_such_group grp = Inr 2"


definition check_fails :: "string \<Rightarrow> error + int" where
  \<comment> \<open>\<^verbatim>\<open>ipa group-show\<close> exits with status 1: the command failed for a reason other than
      a group that is not there\<close>
  "check_fails grp = Inr 1"

definition team_changes :: user_changes where
  "team_changes =
     \<lparr>user_mod = [], user_add = [],
      group_add_member = [(''team'', [''--users=jdoe''])], group_remove_member = []\<rparr>"

definition team_row :: "string entry" where
  "team_row =
     \<lparr>member_of_groups = ''Team'', user_login = ''asmith'',
      first_name = ''Ann'', last_name = ''Smith'', email_address = [],
      telephone_number = [], mobile_telephone_number = []\<rparr>"

definition TEAM_row :: "string entry" where
  "TEAM_row =
     \<lparr>member_of_groups = ''TEAM'', user_login = ''bjones'',
      first_name = ''Bob'', last_name = ''Jones'', email_address = [],
      telephone_number = [], mobile_telephone_number = []\<rparr>"

definition punctuation_row :: "string entry" where
  "punctuation_row =
     \<lparr>member_of_groups = ''!!!/Team'', user_login = ''asmith'',
      first_name = ''Ann'', last_name = ''Smith'', email_address = [],
      telephone_number = [], mobile_telephone_number = []\<rparr>"

definition known_directory :: "string \<Rightarrow> error + (string, string) dict" where
  \<comment> \<open>a directory that knows asmith only\<close>
  "known_directory username =
     (if username = ''asmith''
      then Inr [(''user_login'', ''asmith''), (''first_name'', ''Ann''),
                (''last_name'', ''Smyth''), (''member_of_groups'', ''ipausers, staff'')]
      else Inl CalledProcessError)"

definition applied_directory :: "string \<Rightarrow> error + (string, string) dict" where
  \<comment> \<open>the directory after the plan for the rows of jdoe and asmith has been applied\<close>
  "applied_directory username =
     (if username = ''asmith''
      then Inr [(''user_login'', ''asmith''), (''first_name'', ''Ann''),
                (''last_name'', ''Smith''), (''member_of_groups'', ''ipausers, team'')]
      else if username = ''jdoe''
      then Inr [(''user_login'', ''jdoe''), (''first_name'', ''Jane''),
                (''last_name'', ''Doe''), (''member_of_groups'', ''buero, ipausers, team'')]
      else Inl CalledProcessError)"

definition asmith_old :: ipa_entry where
  "asmith_old =
     \<lparr>ipa_fields = [(''user_login'', ''asmith''), (''first_name'', ''Ann ''),
                    (''last_name'', ''Smyth''), (''email_address'', ''ann@example.org'')],
      ipa_groups = Some [''ipausers'', ''staff'']\<rparr>"

definition asmith_applied :: ipa_entry where
  "asmith_applied =
     \<lparr>ipa_fields = [(''user_login'', ''asmith''), (''first_name'', ''Ann''),
                    (''last_name'', ''Smith''), (''email_address'', ''ann@example.org'')],
      ipa_groups = Some [''ipausers'', ''team'']\<rparr>"

definition two_plan :: change_plan where
  \<comment> \<open>the plan for the rows of jdoe and asmith in \<^term>\<open>known_directory\<close>\<close>
  "two_plan =
     \<lparr>user_mod = [(''asmith'', [''--last=Smith''])],
      user_add = [(''jdoe'', [''--first=Jane'', ''--last=Doe'', ''--email='',
                             ''--phone='', ''--mobile=''])],
      group_add_member = [(''buero'', [''--users=jdoe'']),
                          (''team'', [''--users=jdoe'', ''--users=asmith''])],
      group_remove_member = [(''staff'', [''--users=asmith''])],
      group_add = [(''buero'', [''--desc=B'' @ [CHR 0xFC] @ ''ro'']),
                   (''team'', [''--desc=Team''])]\<rparr>"

definition empty_plan :: change_plan where
  "empty_plan =
     \<lparr>user_mod = [], user_add = [], group_add_member = [], group_remove_member = [],
      group_add = []\<rparr>"

section \<open>Pairing of import and directory entries\<close>

lemma zip_positions:
  "zip xs ys = map (\<lambda>i. (xs ! i, ys ! i)) [0..<min (length xs) (length ys)]"
  by (rule nth_equalityI) simp_all

lemma zip_append_unpaired:
  "length ys \<le> length xs \<Longrightarrow> zip (xs @ zs) ys = zip xs ys"
  by (simp add: zip_append1)

text \<open>
  C10. \<^verbatim>\<open>find_user_differences\<close> pairs the import entries with the directory entries by
  position: the loop body runs on the pairs of the entries at the positions both
  sequences have, in order. When there are no more directory entries than import
  entries, appending further import entries changes nothing in the result: an import
  entry without a directory entry at its position is in no category, and is not taken
  as a user to add.
\<close>

theorem find_user_differences_pairs_by_position:
  "find_user_differences csv_entries ipa_entries =
     foldl diff_user no_user_changes
       (map (\<lambda>i. (csv_entries ! i, ipa_entries ! i))
          [0..<min (length csv_entries) (length ipa_entries)])
   \<and> (length ipa_entries \<le> length csv_entries \<longrightarrow>
        find_user_differences (csv_entries @ trailing) ipa_entries =
        find_user_differences csv_entries ipa_entries)"
  unfolding find_user_differences_def
  using zip_positions [of csv_entries ipa_entries]
    zip_append_unpaired [of ipa_entries csv_entries trailing]
  by simp

theorem find_user_differences_pairs_by_position_witness:
  "length [not_found] \<le> length [asmith]
   \<and> find_user_differences ([asmith] @ [bjones]) [not_found] =
       find_user_differences [asmith] [not_found]
   \<and> user_add (find_user_differences ([asmith] @ [bjones]) [not_found]) =
       [(''asmith'', [''--first=Ann'', ''--last=Smith'', ''--email=ann@example.org'',
                      ''--phone='', ''--mobile=''])]"
  using find_user_differences_pairs_by_position [of "[asmith]" "[not_found]" "[bjones]"]
  by code_simp

section \<open>Order of the commands\<close>








section \<open>Dictionaries\<close>

lemma map_of_dict_set: "map_of (dict_set k v d) x = (if x = k then Some v else map_of d x)"
  by (induction d) auto

lemma keys_map_of: "keys d = dom (map_of d)"
  by (simp add: keys_def dom_map_of_conv_image_fst)

lemma keys_dict_set: "keys (dict_set k v d) = insert k (keys d)"
  by (auto simp: keys_map_of dom_def map_of_dict_set)

lemma dict_update_append: "dict_update d (a @ b) = dict_update (dict_update d a) b"
  by (simp add: dict_update_def)

lemma map_of_dict_update:
  "map_of (dict_update d kvs) x =
     (case map_of (rev kvs) x of Some v \<Rightarrow> Some v | None \<Rightarrow> map_of d x)"
proof (induction kvs arbitrary: d)
  case Nil
  then show ?case by (simp add: dict_update_def)
next
  case (Cons kv kvs)
  obtain k v where kv: "kv = (k, v)" by (cases kv)
  have "dict_update d (kv # kvs) = dict_update (dict_set k v d) kvs"
    by (simp add: dict_update_def kv)
  then show ?case
    by (simp add: Cons.IH map_of_dict_set kv map_add_def split: option.splits)
qed

lemma keys_dict_update: "keys (dict_update d kvs) = keys d \<union> fst ` set kvs"
proof (induction kvs arbitrary: d)
  case Nil
  then show ?case by (simp add: dict_update_def)
next
  case (Cons kv kvs)
  obtain k v where kv: "kv = (k, v)" by (cases kv)
  have "dict_update d (kv # kvs) = dict_update (dict_set k v d) kvs"
    by (simp add: dict_update_def kv)
  then show ?case by (simp add: Cons.IH keys_dict_set kv)
qed

lemma map_of_last_occurrence:
  assumes "kvs = before @ (k, v) # after" and "k \<notin> fst ` set after"
  shows "map_of (rev kvs) k = Some v"
proof -
  have "map_of (rev after) k = None"
    using assms(2) by (simp add: map_of_eq_None_iff)
  then show ?thesis
    by (simp add: assms(1) map_add_def)
qed

section \<open>The example of the specification\<close>

lemma jdoe_entries:
  "fix_csv_group_names [jdoe_row] =
     ([\<lparr>member_of_groups = [''buero'', ''team''], user_login = ''jdoe'',
        first_name = ''Jane'', last_name = ''Doe'', email_address = ''0'',
        telephone_number = [], mobile_telephone_number = []\<rparr>],
      [(''buero'', ''B'' @ [CHR 0xFC] @ ''ro''), (''team'', ''Team'')])"
  by code_simp

text \<open>
  C6, as the code has it. For the import row with login jdoe, first name Jane, last name
  Doe, email 0 and groups B(U+00FC)ro/Team, when \<^verbatim>\<open>ipa user-show\<close> fails for jdoe and
  the two group checks run, the plan has a user-add entry for jdoe with first=Jane,
  last=Doe and empty email, phone and mobile, and group-add-member entries under the
  keys buero and team (the umlaut is written ue), each listing jdoe. The group-add
  entries are those of the two groups whose check has a non-zero status, with the
  descriptions B(U+00FC)ro and Team.
\<close>

theorem jdoe_example_plan:
  assumes "user_show ''jdoe'' = Inl CalledProcessError"
    and "group_show ''buero'' = Inr b" and "group_show ''team'' = Inr t"
  shows "main_changes user_show group_show [jdoe_row] =
     Inr \<lparr>user_mod = [],
          user_add = [(''jdoe'', [''--first=Jane'', ''--last=Doe'', ''--email='',
                                 ''--phone='', ''--mobile=''])],
          group_add_member = [(''buero'', [''--users=jdoe'']), (''team'', [''--users=jdoe''])],
          group_remove_member = [],
          group_add =
            (if b \<noteq> 0 then [(''buero'', [''--desc=B'' @ [CHR 0xFC] @ ''ro''])] else []) @
            (if t \<noteq> 0 then [(''team'', [''--desc=Team''])] else [])\<rparr>"
  using assms
  by (simp add: main_changes_def jdoe_entries fix_csv_emails_def fix_email_def
      fix_csv_zero_entries_def fix_zero_def strip_def isspace_def code_def query_user_def
      fix_ipa_groups_def fix_ipa_entry_def plan_for_def find_user_differences_def
      no_user_changes_def diff_user_def diff_attributes_def nonempty_def add_args_def
      IPA_CMDLINE_MAP_def assignment_def entry_get_def add_members_def remove_members_def
      new_groups_def old_groups_def set_union_def set_diff_def DEFAULT_GROUPS_def users_arg_def
      find_group_changes_def group_args_def with_group_add_def)

theorem jdoe_example_plan_witness:
  "fresh_directory ''jdoe'' = Inl CalledProcessError
   \<and> no_such_group ''buero'' = Inr 2 \<and> no_such_group ''team'' = Inr 2
   \<and> main_changes fresh_directory no_such_group [jdoe_row] = Inr jdoe_plan"
  using jdoe_example_plan [of fresh_directory no_such_group 2 2]
  by (simp add: fresh_directory_def no_such_group_def jdoe_plan_def)

text \<open>
  The claim as stated fails: in the plan for that row, in a directory without users and
  without groups, nothing is stored under the key buro, neither in group-add-member nor
  in group-add.
\<close>

theorem jdoe_example_no_buro_key:
  "main_changes fresh_directory no_such_group [jdoe_row] = Inr jdoe_plan
   \<and> map_of (group_add_member jdoe_plan) ''buro'' = None
   \<and> map_of (group_add jdoe_plan) ''buro'' = None"
  by code_simp

section \<open>Groups to create\<close>

lemma find_group_changes_from_keys:
  "find_group_changes_from group_show descs acc groups = Inr ga \<Longrightarrow>
   keys ga = keys acc \<union> {g \<in> set groups. group_show g \<noteq> Inr 0}"
proof (induction groups arbitrary: acc)
  case Nil
  then show ?case by simp
next
  case (Cons g groups)
  then show ?case
    by (cases "group_show g") (auto simp: keys_dict_set split: if_splits)
qed

lemma find_group_changes_from_raises:
  "isl (find_group_changes_from group_show descs acc groups)
   \<longleftrightarrow> (\<exists>g \<in> set groups. isl (group_show g))"
proof (induction groups arbitrary: acc)
  case Nil
  then show ?case by simp
next
  case (Cons g groups)
  then show ?case by (cases "group_show g") auto
qed

text \<open>
  C1, as the code has it. \<^verbatim>\<open>find_group_changes\<close> raises exactly when the call of
  \<^verbatim>\<open>ipa group-show\<close> itself raises for some key of group-add-member (the command could
  not be started). When it returns, the keys of its result are exactly the keys of
  group-add-member whose check did not exit with status 0: every non-zero exit status,
  whatever its cause, is taken as "the group does not exist" and gives a group-add
  entry; status 0 gives none.
\<close>

theorem find_group_changes_nonzero_status:
  "(isl (find_group_changes group_show changes descs)
      \<longleftrightarrow> (\<exists>g \<in> keys (group_add_member changes). isl (group_show g)))
   \<and> (\<forall>ga. find_group_changes group_show changes descs = Inr ga \<longrightarrow>
         keys ga = {g \<in> keys (group_add_member changes). group_show g \<noteq> Inr 0})"
  using find_group_changes_from_raises
          [of group_show descs "[]" "map fst (group_add_member changes)"]
    find_group_changes_from_keys
          [of group_show descs "[]" "map fst (group_add_member changes)"]
  by (auto simp: find_group_changes_def keys_def)

theorem find_group_changes_nonzero_status_witness:
  "\<not> isl (find_group_changes check_fails team_changes [])
   \<and> find_group_changes check_fails team_changes [] = Inr [(''team'', [])]
   \<and> keys [(''team'', [] :: string list)] =
       {g \<in> keys (group_add_member team_changes). check_fails g \<noteq> Inr 0}"
proof -
  have e: "find_group_changes check_fails team_changes [] = Inr [(''team'', [])]"
    by code_simp
  show ?thesis
    using find_group_changes_nonzero_status [of check_fails team_changes "[]"] e
    by simp
qed

text \<open>
  The claim as stated fails: with a check that exits with status 1 for the group team,
  \<^verbatim>\<open>find_group_changes\<close> returns to its caller, and its result has a group-add entry for
  team.
\<close>

theorem find_group_changes_failed_check_counterexample:
  "check_fails ''team'' = Inr 1
   \<and> find_group_changes check_fails team_changes [] = Inr [(''team'', [])]"
  by code_simp

section \<open>The group descriptions\<close>

lemma fix_csv_group_names_from_eq:
  "fix_csv_group_names_from d rows =
     (map fix_entry rows, dict_update d (concat (map entry_descriptions rows)))"
proof (induction rows arbitrary: d)
  case Nil
  then show ?case by (simp add: dict_update_def)
next
  case (Cons e rows)
  then show ?case by (simp add: dict_update_append)
qed

lemma fix_csv_group_names_eq:
  "fix_csv_group_names rows =
     (map fix_entry rows, dict_update [] (concat (map entry_descriptions rows)))"
  by (simp add: fix_csv_group_names_def fix_csv_group_names_from_eq)

text \<open>
  C4, as the code has it. \<^term>\<open>concat (map entry_descriptions rows)\<close> lists, in batch
  order, every pair of a normalized segment and the original segment at the same
  position. The dictionary \<^verbatim>\<open>fix_csv_group_names\<close> returns maps an identifier to the
  original segment of its last occurrence in that list: \<^verbatim>\<open>dict.update\<close> overwrites the
  label of every earlier occurrence.
\<close>

theorem group_descriptions_last_label:
  assumes "concat (map entry_descriptions rows) = before @ (k, label) # after"
    and "k \<notin> fst ` set after"
  shows "map_of (snd (fix_csv_group_names rows)) k = Some label"
  using map_of_last_occurrence [OF assms]
  by (simp add: fix_csv_group_names_eq map_of_dict_update)

theorem group_descriptions_last_label_witness:
  "concat (map entry_descriptions [team_row, TEAM_row]) =
     [(''team'', ''Team'')] @ (''team'', ''TEAM'') # []
   \<and> ''team'' \<notin> fst ` set ([] :: (string \<times> string) list)
   \<and> map_of (snd (fix_csv_group_names [team_row, TEAM_row])) ''team'' = Some ''TEAM''"
proof -
  have h: "concat (map entry_descriptions [team_row, TEAM_row]) =
      [(''team'', ''Team'')] @ (''team'', ''TEAM'') # []"
    by code_simp
  have n: "''team'' \<notin> fst ` set ([] :: (string \<times> string) list)"
    by simp
  show ?thesis
    using h n group_descriptions_last_label
      [of "[team_row, TEAM_row]" "[(''team'', ''Team'')]" "''team''" "''TEAM''" "[]"]
    by simp
qed

text \<open>
  The claim as stated fails: in the batch of a row with the groups Team and a row with
  the groups TEAM, both segments normalize to team; the first occurrence is Team, and
  the dictionary maps team to TEAM.
\<close>

theorem group_descriptions_first_label_counterexample:
  "concat (map entry_descriptions [team_row, TEAM_row]) =
     [(''team'', ''Team''), (''team'', ''TEAM'')]
   \<and> map_of (snd (fix_csv_group_names [team_row, TEAM_row])) ''team'' = Some ''TEAM''
   \<and> map_of (snd (fix_csv_group_names [team_row, TEAM_row])) ''team'' \<noteq> Some ''Team''"
  by code_simp

section \<open>The keys of the group descriptions\<close>

lemma code_sep: "code c = 47 \<longleftrightarrow> c = CHR ''/''"
proof
  assume "code c = 47"
  then have "of_char c = (of_char (CHR ''/'') :: nat)" by (simp add: code_def)
  then show "c = CHR ''/''" by (simp only: of_char_eq_iff)
qed (simp add: code_def)

lemma length_split_from:
  "length (split_from sep w s) = Suc (length (filter (\<lambda>c. c = sep) s))"
  by (induction s arbitrary: w) auto

lemma length_split: "length (split sep s) = Suc (length (filter (\<lambda>c. c = sep) s))"
  by (simp add: split_def length_split_from)

lemma concat_split_ws_from:
  "concat (split_ws_from w s) = rev w @ filter (\<lambda>c. \<not> isspace c) s"
  by (induction s arbitrary: w) auto

lemma filter_join:
  "filter P sep = [] \<Longrightarrow> filter P (join sep ws) = filter P (concat ws)"
  by (induction sep ws rule: join.induct) auto

lemma sep_not_space: "is_sep c \<Longrightarrow> \<not> isspace c"
  by (simp add: is_sep_def isspace_def code_def)

lemma seps_join_split_ws: "filter is_sep (join ''_'' (split_ws s)) = filter is_sep s"
proof -
  have "filter is_sep (join ''_'' (split_ws s)) = filter is_sep (concat (split_ws s))"
    by (rule filter_join) (simp add: is_sep_def)
  also have "\<dots> = filter is_sep (filter (\<lambda>c. \<not> isspace c) s)"
    by (simp add: split_ws_def concat_split_ws_from)
  also have "\<dots> = filter is_sep s"
    using sep_not_space by (auto intro: filter_cong)
  finally show ?thesis .
qed

lemma lower_char_sep: "is_sep (lower_char c) \<longleftrightarrow> is_sep c"
proof (cases "(65 \<le> code c \<and> code c \<le> 90) \<or> (192 \<le> code c \<and> code c \<le> 222 \<and> code c \<noteq> 215)")
  case True
  then have l: "lower_char c = char_of (code c + 32)"
    by (simp add: lower_char_def Let_def)
  have "code c + 32 < 256" "code c + 32 \<noteq> 47" "code c \<noteq> 47" using True by auto
  then have "char_of (code c + 32) \<noteq> CHR ''/''"
    by (simp add: char_of_eq_iff take_bit_eq_mod)
  moreover have "c \<noteq> CHR ''/''" using \<open>code c \<noteq> 47\<close> code_sep by blast
  ultimately show ?thesis by (simp add: l is_sep_def)
next
  case False
  then have "lower_char c = c"
    by (auto simp: lower_char_def Let_def)
  then show ?thesis by simp
qed

lemma seps_lower: "filter is_sep (lower s) = filter is_sep s"
proof (induction s)
  case Nil
  then show ?case by (simp add: lower_def)
next
  case (Cons c s)
  then show ?case
    using lower_char_sep [of c] by (auto simp: lower_def is_sep_def)
qed

lemma seps_replace:
  "\<not> is_sep old \<Longrightarrow> filter is_sep new = [] \<Longrightarrow> filter is_sep (replace old new s) = filter is_sep s"
  by (induction s) (auto simp: replace_def)

lemma seps_replace_umlauts: "filter is_sep (replace_umlauts s) = filter is_sep s"
  by (simp add: replace_umlauts_def seps_replace is_sep_def)

lemma seps_nfkd_ascii_char: "filter is_sep (nfkd_ascii_char c) = filter is_sep [c]"
proof (cases "code c < 128")
  case True
  then show ?thesis by (simp add: nfkd_ascii_char_def Let_def)
next
  case False
  then have "code c \<noteq> 47" by simp
  then have "\<not> is_sep c" using code_sep by (auto simp: is_sep_def)
  moreover have "filter is_sep (nfkd_ascii_char c) = []"
    using False by (simp add: nfkd_ascii_char_def Let_def is_sep_def)
  ultimately show ?thesis by simp
qed

lemma seps_nfkd_ascii: "filter is_sep (nfkd_ascii s) = filter is_sep s"
proof (induction s)
  case Nil
  then show ?case by (simp add: nfkd_ascii_def)
next
  case (Cons c s)
  have "nfkd_ascii (c # s) = nfkd_ascii_char c @ nfkd_ascii s"
    by (simp add: nfkd_ascii_def)
  then show ?case using Cons seps_nfkd_ascii_char [of c] by simp
qed

lemma seps_legal: "filter is_sep (filter groupname_legal s) = filter is_sep s"
  by (induction s) (auto simp: groupname_legal_def is_sep_def)

lemma seps_group_name: "filter is_sep (group_name orig) = filter is_sep orig"
  unfolding group_name_def
  by (simp only: seps_legal seps_nfkd_ascii seps_replace_umlauts seps_lower seps_join_split_ws)

lemma length_group_names: "length (group_names orig) = length (split GROUP_SEP orig)"
proof -
  have "(\<lambda>c. c = GROUP_SEP) = is_sep"
    by (simp add: fun_eq_iff is_sep_def GROUP_SEP_def)
  then show ?thesis
    by (simp add: group_names_def length_split seps_group_name)
qed

lemma keys_entry_descriptions:
  "fst ` set (entry_descriptions e) = set (group_names (original_group_name (member_of_groups e)))"
proof -
  let ?orig = "original_group_name (member_of_groups e)"
  have "map fst (zip (group_names ?orig) (split GROUP_SEP ?orig)) = group_names ?orig"
    using length_group_names [of ?orig] by simp
  then have "set (map fst (entry_descriptions e)) = set (group_names ?orig)"
    by (simp add: entry_descriptions_def Let_def)
  then show ?thesis by simp
qed

lemma keys_Nil: "keys [] = {}"
  by (simp add: keys_def)

lemma groups_fix_entry:
  "set (member_of_groups (fix_entry e)) =
     set (group_names (original_group_name (member_of_groups e))) - {[]}"
  by (auto simp: fix_entry_def set_of_def)

text \<open>
  C5, as the code has it. A segment that normalizes to the empty string adds nothing to
  the entry's set of groups: the empty string is in no entry's \<^verbatim>\<open>member_of_groups\<close>.
  The dictionary of descriptions does get an entry under the empty string for such a
  segment: the empty string is a key exactly when some normalized segment of some row
  is empty. Its other keys are exactly the identifiers in some entry's
  \<^verbatim>\<open>member_of_groups\<close>.
\<close>

theorem group_descriptions_keys:
  "(\<forall>e \<in> set (fst (fix_csv_group_names rows)). [] \<notin> set (member_of_groups e))
   \<and> ([] \<in> keys (snd (fix_csv_group_names rows)) \<longleftrightarrow>
        (\<exists>e \<in> set rows.
           [] \<in> set (group_names (original_group_name (member_of_groups e)))))
   \<and> keys (snd (fix_csv_group_names rows)) - {[]} =
       (\<Union>e \<in> set (fst (fix_csv_group_names rows)). set (member_of_groups e))"
proof -
  have k: "keys (snd (fix_csv_group_names rows)) =
      (\<Union>e \<in> set rows. set (group_names (original_group_name (member_of_groups e))))"
    by (simp add: fix_csv_group_names_eq keys_dict_update keys_Nil image_UN
        keys_entry_descriptions)
  have 1: "\<forall>e \<in> set (fst (fix_csv_group_names rows)). [] \<notin> set (member_of_groups e)"
    by (auto simp: fix_csv_group_names_eq groups_fix_entry)
  have 2: "[] \<in> keys (snd (fix_csv_group_names rows)) \<longleftrightarrow>
      (\<exists>e \<in> set rows. [] \<in> set (group_names (original_group_name (member_of_groups e))))"
    unfolding k by blast
  have 3: "keys (snd (fix_csv_group_names rows)) - {[]} =
      (\<Union>e \<in> set (fst (fix_csv_group_names rows)). set (member_of_groups e))"
    using k by (auto simp: fix_csv_group_names_eq groups_fix_entry)
  from 1 2 3 show ?thesis by blast
qed

theorem group_descriptions_keys_witness:
  "map member_of_groups (fst (fix_csv_group_names [punctuation_row])) = [[''team'']]
   \<and> group_names (original_group_name (member_of_groups punctuation_row)) = [[], ''team'']
   \<and> [] \<in> keys (snd (fix_csv_group_names [punctuation_row]))
   \<and> keys (snd (fix_csv_group_names [punctuation_row])) - {[]} = {''team''}"
proof -
  have e: "map member_of_groups (fst (fix_csv_group_names [punctuation_row])) = [[''team'']]"
    by code_simp
  have g: "group_names (original_group_name (member_of_groups punctuation_row)) = [[], ''team'']"
    by code_simp
  then have s: "\<exists>e \<in> set [punctuation_row].
      [] \<in> set (group_names (original_group_name (member_of_groups e)))"
    by simp
  have "(\<Union>e \<in> set (fst (fix_csv_group_names [punctuation_row])). set (member_of_groups e))
      = \<Union> (set (map set (map member_of_groups (fst (fix_csv_group_names [punctuation_row])))))"
    by simp
  also have "\<dots> = {''team''}" by (simp only: e) simp
  finally have u: "(\<Union>e \<in> set (fst (fix_csv_group_names [punctuation_row])).
      set (member_of_groups e)) = {''team''}" .
  from group_descriptions_keys [of "[punctuation_row]"] s u
  have "[] \<in> keys (snd (fix_csv_group_names [punctuation_row]))"
    and "keys (snd (fix_csv_group_names [punctuation_row])) - {[]} = {''team''}"
    by simp_all
  with e g show ?thesis by simp
qed

text \<open>
  The claim as stated fails: for a row with the groups !!!/Team, the first segment
  normalizes to the empty string; the entry's set of groups holds team only, and the
  dictionary has an entry under the empty string.
\<close>

theorem group_descriptions_empty_key_counterexample:
  "map member_of_groups (fst (fix_csv_group_names [punctuation_row])) = [[''team'']]
   \<and> snd (fix_csv_group_names [punctuation_row]) = [([], ''!!!''), (''team'', ''Team'')]
   \<and> [] \<in> keys (snd (fix_csv_group_names [punctuation_row]))"
  by code_simp

section \<open>The loop of \<^verbatim>\<open>find_user_differences\<close>\<close>

lemma user_mod_diff_user:
  "user_mod (diff_user changes (new, old)) =
     (if nonempty old \<and> mod_args new old \<noteq> []
      then dict_set (user_login new) (mod_args new old) (user_mod changes)
      else user_mod changes)"
  by (simp add: diff_user_def diff_attributes_def add_members_def remove_members_def)

lemma user_add_diff_user:
  "user_add (diff_user changes (new, old)) =
     (if nonempty old then user_add changes
      else dict_set (user_login new) (add_args new) (user_add changes))"
  by (simp add: diff_user_def diff_attributes_def add_members_def remove_members_def)

lemma group_add_member_diff_user:
  "group_add_member (diff_user changes (new, old)) =
     foldl (\<lambda>d grp. dict_append grp (users_arg (user_login new)) d) (group_add_member changes)
       (set_diff (new_groups new) (old_groups old))"
  by (simp add: diff_user_def diff_attributes_def add_members_def remove_members_def)

lemma group_remove_member_diff_user:
  "group_remove_member (diff_user changes (new, old)) =
     foldl (\<lambda>d grp. dict_append grp (users_arg (user_login new)) d) (group_remove_member changes)
       (set_diff (old_groups old) (new_groups new))"
  by (simp add: diff_user_def diff_attributes_def add_members_def remove_members_def)

lemma set_dict_set: "(k, v) \<in> set (dict_set k' v' d) \<Longrightarrow> (k, v) = (k', v') \<or> (k, v) \<in> set d"
  by (induction d) (auto split: if_splits)

lemma user_mod_loop:
  "(k, args) \<in> set (user_mod (foldl diff_user changes ps)) \<Longrightarrow>
   (k, args) \<in> set (user_mod changes)
   \<or> (\<exists>new old. (new, old) \<in> set ps \<and> user_login new = k \<and> nonempty old
         \<and> args = mod_args new old \<and> args \<noteq> [])"
proof (induction ps arbitrary: changes)
  case Nil
  then show ?case by simp
next
  case (Cons p ps)
  obtain new old where p: "p = (new, old)" by (cases p)
  from Cons.prems have "(k, args) \<in> set (user_mod (foldl diff_user (diff_user changes p) ps))"
    by simp
  from Cons.IH [OF this] show ?case
  proof
    assume "(k, args) \<in> set (user_mod (diff_user changes p))"
    then show ?thesis
      using set_dict_set [of k args "user_login new" "mod_args new old" "user_mod changes"]
      by (auto simp: p user_mod_diff_user split: if_splits)
  next
    assume "\<exists>new old. (new, old) \<in> set ps \<and> user_login new = k \<and> nonempty old
         \<and> args = mod_args new old \<and> args \<noteq> []"
    then show ?thesis by auto
  qed
qed

lemma user_add_loop:
  "k \<in> keys (user_add (foldl diff_user changes ps)) \<Longrightarrow>
   k \<in> keys (user_add changes)
   \<or> (\<exists>new old. (new, old) \<in> set ps \<and> user_login new = k \<and> \<not> nonempty old)"
proof (induction ps arbitrary: changes)
  case Nil
  then show ?case by simp
next
  case (Cons p ps)
  obtain new old where p: "p = (new, old)" by (cases p)
  from Cons.prems have "k \<in> keys (user_add (foldl diff_user (diff_user changes p) ps))"
    by simp
  from Cons.IH [OF this] show ?case
    by (auto simp: p user_add_diff_user keys_dict_set split: if_splits)
qed

section \<open>Attribute changes\<close>

text \<open>
  C7. Every entry of \<^verbatim>\<open>user-mod\<close> comes from a pair of an import entry with that login
  and a directory entry that is not empty; its list is not empty and holds, in the order
  of \<^verbatim>\<open>IPA_CMDLINE_MAP\<close>, the assignment of the trimmed import value for exactly the
  tracked attributes whose trimmed import value differs from the trimmed directory value.
  So no attribute with equal trimmed values is listed, and a login gets no entry when
  no tracked attribute differs in its pair of entries.
\<close>

theorem user_mod_lists_changed_attributes:
  assumes "(login, args) \<in> set (user_mod (find_user_differences csv_entries ipa_entries))"
  shows "\<exists>new old. (new, old) \<in> set (zip csv_entries ipa_entries)
      \<and> user_login new = login \<and> nonempty old \<and> args \<noteq> []
      \<and> args =
          map (\<lambda>(key, cmdline_key). assignment cmdline_key (strip (entry_get new key)))
            (filter (\<lambda>(key, cmdline_key).
                 strip (entry_get new key) \<noteq> strip (dict_get (ipa_fields old) key))
               IPA_CMDLINE_MAP)"
proof -
  have "(login, args) \<in> set (user_mod no_user_changes)
   \<or> (\<exists>new old. (new, old) \<in> set (zip csv_entries ipa_entries) \<and> user_login new = login
         \<and> nonempty old \<and> args = mod_args new old \<and> args \<noteq> [])"
    using assms unfolding find_user_differences_def by (rule user_mod_loop)
  then show ?thesis
    by (auto simp: no_user_changes_def mod_args_def differs_def)
qed

theorem user_mod_lists_changed_attributes_witness:
  "(''asmith'', [''--last=Smith''])
     \<in> set (user_mod (find_user_differences [asmith] [asmith_old]))
   \<and> nonempty asmith_old
   \<and> [''--last=Smith''] =
       map (\<lambda>(key, cmdline_key). assignment cmdline_key (strip (entry_get asmith key)))
         (filter (\<lambda>(key, cmdline_key).
              strip (entry_get asmith key) \<noteq> strip (dict_get (ipa_fields asmith_old) key))
            IPA_CMDLINE_MAP)"
proof -
  have h: "(''asmith'', [''--last=Smith''])
      \<in> set (user_mod (find_user_differences [asmith] [asmith_old]))"
    by code_simp
  from user_mod_lists_changed_attributes [OF h] show ?thesis using h by simp
qed

section \<open>Membership changes\<close>

lemma members_Nil: "members [] = {}"
  by (simp add: members_def)

lemma members_Cons: "members ((k, l) # d) = (\<lambda>a. (k, a)) ` set l \<union> members d"
  by (auto simp: members_def)

lemma keys_Cons: "keys ((k, l) # d) = insert k (keys d)"
  by (simp add: keys_def)

lemma members_dict_append: "members (dict_append k a d) = insert (k, a) (members d)"
proof (induction d)
  case Nil
  then show ?case by (simp add: members_Cons members_Nil)
next
  case (Cons p d)
  obtain k' l where p: "p = (k', l)" by (cases p)
  show ?case
    by (cases "k' = k") (auto simp: p members_Cons Cons.IH)
qed

lemma keys_dict_append: "keys (dict_append k a d) = insert k (keys d)"
proof (induction d)
  case Nil
  then show ?case by (simp add: keys_def)
next
  case (Cons p d)
  obtain k' l where p: "p = (k', l)" by (cases p)
  show ?case
    by (cases "k' = k") (auto simp: p keys_Cons Cons.IH)
qed

lemma lists_dict_append:
  "[] \<notin> snd ` set d \<Longrightarrow> [] \<notin> snd ` set (dict_append k a d)"
proof (induction d)
  case Nil
  then show ?case by simp
next
  case (Cons p d)
  obtain k' l where p: "p = (k', l)" by (cases p)
  from Cons.prems have "[] \<notin> snd ` set d" "l \<noteq> []" by (auto simp: p)
  then show ?case
    using Cons.IH by (cases "k' = k") (auto simp: p)
qed

lemma members_append_all:
  "members (foldl (\<lambda>d grp. dict_append grp a d) d groups) = members d \<union> (\<lambda>g. (g, a)) ` set groups"
  by (induction groups arbitrary: d) (auto simp: members_dict_append)

lemma lists_append_all:
  "[] \<notin> snd ` set d \<Longrightarrow> [] \<notin> snd ` set (foldl (\<lambda>d grp. dict_append grp a d) d groups)"
proof (induction groups arbitrary: d)
  case Nil
  then show ?case by simp
next
  case (Cons g groups)
  then show ?case using lists_dict_append [of d g a] by simp
qed

lemma keys_members: "[] \<notin> snd ` set d \<Longrightarrow> keys d = fst ` members d"
proof
  assume n: "[] \<notin> snd ` set d"
  show "keys d \<subseteq> fst ` members d"
  proof
    fix k assume "k \<in> keys d"
    then obtain l where kl: "(k, l) \<in> set d" by (auto simp: keys_def)
    with n have "l \<noteq> []" by force
    then obtain a where "a \<in> set l" by (cases l) auto
    with kl have "(k, a) \<in> members d" by (auto simp: members_def)
    then show "k \<in> fst ` members d" by force
  qed
  show "fst ` members d \<subseteq> keys d"
    by (force simp: members_def keys_def)
qed

lemma set_set_diff: "set (set_diff a b) = set a - set b"
  by (auto simp: set_diff_def)

lemma set_set_union: "set (set_union a b) = set a \<union> set b"
  by (auto simp: set_union_def)

lemma set_new_groups: "set (new_groups new) = set (member_of_groups new) \<union> set DEFAULT_GROUPS"
  by (simp add: new_groups_def set_set_union)

lemma set_old_groups: "set (old_groups old) = set (directory_groups old) \<union> set DEFAULT_GROUPS"
  by (simp add: old_groups_def directory_groups_def set_set_union)

lemma group_add_member_loop:
  "members (group_add_member (foldl diff_user changes ps)) =
     members (group_add_member changes)
     \<union> {(g, users_arg (user_login new)) | g new old. (new, old) \<in> set ps \<and> g \<in> to_add new old}"
proof (induction ps arbitrary: changes)
  case Nil
  then show ?case by simp
next
  case (Cons p ps)
  obtain new old where p: "p = (new, old)" by (cases p)
  have "members (group_add_member (diff_user changes p)) =
      members (group_add_member changes) \<union> (\<lambda>g. (g, users_arg (user_login new))) ` to_add new old"
    by (simp add: p group_add_member_diff_user members_append_all set_set_diff set_new_groups
        set_old_groups to_add_def)
  then show ?case
    using Cons.IH [of "diff_user changes p"] by (auto simp: p)
qed

lemma group_remove_member_loop:
  "members (group_remove_member (foldl diff_user changes ps)) =
     members (group_remove_member changes)
     \<union> {(g, users_arg (user_login new)) | g new old. (new, old) \<in> set ps \<and> g \<in> to_remove new old}"
proof (induction ps arbitrary: changes)
  case Nil
  then show ?case by simp
next
  case (Cons p ps)
  obtain new old where p: "p = (new, old)" by (cases p)
  have "members (group_remove_member (diff_user changes p)) =
      members (group_remove_member changes)
      \<union> (\<lambda>g. (g, users_arg (user_login new))) ` to_remove new old"
    by (simp add: p group_remove_member_diff_user members_append_all set_set_diff set_new_groups
        set_old_groups to_remove_def)
  then show ?case
    using Cons.IH [of "diff_user changes p"] by (auto simp: p)
qed

lemma lists_loop:
  "[] \<notin> snd ` set (group_add_member changes) \<Longrightarrow>
   [] \<notin> snd ` set (group_remove_member changes) \<Longrightarrow>
   [] \<notin> snd ` set (group_add_member (foldl diff_user changes ps))
   \<and> [] \<notin> snd ` set (group_remove_member (foldl diff_user changes ps))"
proof (induction ps arbitrary: changes)
  case Nil
  then show ?case by simp
next
  case (Cons p ps)
  obtain new old where p: "p = (new, old)" by (cases p)
  have "[] \<notin> snd ` set (group_add_member (diff_user changes p))"
    "[] \<notin> snd ` set (group_remove_member (diff_user changes p))"
    using Cons.prems
    by (simp_all only: p group_add_member_diff_user group_remove_member_diff_user
        lists_append_all not_False_eq_True)
  then show ?case using Cons.IH [of "diff_user changes p"] by simp
qed

lemma members_add:
  "members (group_add_member (find_user_differences csv_entries ipa_entries)) =
     {(g, users_arg (user_login new)) | g new old.
        (new, old) \<in> set (zip csv_entries ipa_entries) \<and> g \<in> to_add new old}"
  by (simp add: find_user_differences_def group_add_member_loop)
     (simp add: no_user_changes_def members_Nil)

lemma members_remove:
  "members (group_remove_member (find_user_differences csv_entries ipa_entries)) =
     {(g, users_arg (user_login new)) | g new old.
        (new, old) \<in> set (zip csv_entries ipa_entries) \<and> g \<in> to_remove new old}"
  by (simp add: find_user_differences_def group_remove_member_loop)
     (simp add: no_user_changes_def members_Nil)

lemma keys_add_remove:
  "keys (group_add_member (find_user_differences csv_entries ipa_entries)) =
     fst ` members (group_add_member (find_user_differences csv_entries ipa_entries))"
  "keys (group_remove_member (find_user_differences csv_entries ipa_entries)) =
     fst ` members (group_remove_member (find_user_differences csv_entries ipa_entries))"
  using lists_loop [of no_user_changes "zip csv_entries ipa_entries"]
  by (simp_all add: find_user_differences_def keys_members no_user_changes_def)

lemma keys_empty: "keys d = {} \<longleftrightarrow> d = []"
  by (cases d) (auto simp: keys_def)

text \<open>
  C8. The pairs of a group and a user argument in \<^verbatim>\<open>group-add-member\<close> are exactly
  those of a user and a group in (import groups \<open>\<union>\<close> default groups) \<open>-\<close> (directory groups
  \<open>\<union>\<close> default groups) of that user's pair of entries, and those in
  \<^verbatim>\<open>group-remove-member\<close> the same with the two sides exchanged; every key of the two
  dictionaries has such a pair. Hence no default group is a key of either dictionary, and
  when the import groups and the directory groups of every pair agree outside the
  default groups, both dictionaries are empty.
\<close>

theorem membership_deltas:
  "members (group_add_member (find_user_differences csv_entries ipa_entries)) =
     {(g, users_arg (user_login new)) | g new old.
        (new, old) \<in> set (zip csv_entries ipa_entries)
        \<and> g \<in> (set (member_of_groups new) \<union> set DEFAULT_GROUPS)
                - (set (directory_groups old) \<union> set DEFAULT_GROUPS)}
   \<and> members (group_remove_member (find_user_differences csv_entries ipa_entries)) =
     {(g, users_arg (user_login new)) | g new old.
        (new, old) \<in> set (zip csv_entries ipa_entries)
        \<and> g \<in> (set (directory_groups old) \<union> set DEFAULT_GROUPS)
                - (set (member_of_groups new) \<union> set DEFAULT_GROUPS)}
   \<and> keys (group_add_member (find_user_differences csv_entries ipa_entries)) =
       fst ` members (group_add_member (find_user_differences csv_entries ipa_entries))
   \<and> keys (group_remove_member (find_user_differences csv_entries ipa_entries)) =
       fst ` members (group_remove_member (find_user_differences csv_entries ipa_entries))
   \<and> (\<forall>g \<in> set DEFAULT_GROUPS.
         g \<notin> keys (group_add_member (find_user_differences csv_entries ipa_entries))
         \<and> g \<notin> keys (group_remove_member (find_user_differences csv_entries ipa_entries)))
   \<and> ((\<forall>(new, old) \<in> set (zip csv_entries ipa_entries).
          set (member_of_groups new) - set DEFAULT_GROUPS =
          set (directory_groups old) - set DEFAULT_GROUPS)
        \<longrightarrow> group_add_member (find_user_differences csv_entries ipa_entries) = []
          \<and> group_remove_member (find_user_differences csv_entries ipa_entries) = [])"
proof -
  let ?ch = "find_user_differences csv_entries ipa_entries"
  note m = members_add [of csv_entries ipa_entries] members_remove [of csv_entries ipa_entries]
  note k = keys_add_remove [of csv_entries ipa_entries]
  have d: "\<forall>g \<in> set DEFAULT_GROUPS.
      g \<notin> keys (group_add_member ?ch) \<and> g \<notin> keys (group_remove_member ?ch)"
    unfolding k m by (auto simp: to_add_def to_remove_def)
  have e: "(\<forall>(new, old) \<in> set (zip csv_entries ipa_entries).
        set (member_of_groups new) - set DEFAULT_GROUPS =
        set (directory_groups old) - set DEFAULT_GROUPS)
      \<longrightarrow> group_add_member ?ch = [] \<and> group_remove_member ?ch = []"
  proof
    assume a: "\<forall>(new, old) \<in> set (zip csv_entries ipa_entries).
        set (member_of_groups new) - set DEFAULT_GROUPS =
        set (directory_groups old) - set DEFAULT_GROUPS"
    have "to_add new old = {} \<and> to_remove new old = {}"
      if "(new, old) \<in> set (zip csv_entries ipa_entries)" for new old
      using a that unfolding to_add_def to_remove_def by blast
    then have "members (group_add_member ?ch) = {}" "members (group_remove_member ?ch) = {}"
      unfolding m by auto
    then have "keys (group_add_member ?ch) = {}" "keys (group_remove_member ?ch) = {}"
      unfolding k by simp_all
    then show "group_add_member ?ch = [] \<and> group_remove_member ?ch = []"
      by (simp add: keys_empty)
  qed
  show ?thesis
    using m k d e unfolding to_add_def to_remove_def by blast
qed

theorem membership_deltas_witness:
  "group_add_member (find_user_differences [asmith] [asmith_old]) =
     [(''team'', [''--users=asmith''])]
   \<and> group_remove_member (find_user_differences [asmith] [asmith_old]) =
     [(''staff'', [''--users=asmith''])]
   \<and> set (member_of_groups asmith) - set DEFAULT_GROUPS =
       set (directory_groups asmith_applied) - set DEFAULT_GROUPS
   \<and> group_add_member (find_user_differences [asmith] [asmith_applied]) = []
   \<and> group_remove_member (find_user_differences [asmith] [asmith_applied]) = []"
proof -
  have a: "group_add_member (find_user_differences [asmith] [asmith_old]) =
     [(''team'', [''--users=asmith''])]"
    "group_remove_member (find_user_differences [asmith] [asmith_old]) =
     [(''staff'', [''--users=asmith''])]"
    by code_simp+
  have g: "set (member_of_groups asmith) - set DEFAULT_GROUPS =
       set (directory_groups asmith_applied) - set DEFAULT_GROUPS"
    by code_simp
  then have h: "\<forall>(new, old) \<in> set (zip [asmith] [asmith_applied]).
      set (member_of_groups new) - set DEFAULT_GROUPS =
      set (directory_groups old) - set DEFAULT_GROUPS"
    by simp
  show ?thesis
    using membership_deltas [of "[asmith]" "[asmith_applied]"] h a g by blast
qed

section \<open>The plan of \<^verbatim>\<open>main\<close>\<close>

lemma query_ipa_Inr:
  "query_ipa user_show usernames = Inr ds \<Longrightarrow>
   ds = map (\<lambda>u. projr (query_user user_show u)) usernames"
proof (induction usernames arbitrary: ds)
  case Nil
  then show ?case by simp
next
  case (Cons u us)
  then show ?case by (auto split: sum.splits)
qed

lemma zip_map_self: "zip xs (map f xs) = map (\<lambda>x. (x, f x)) xs"
  by (induction xs) auto

lemma main_changes_Inr:
  assumes "main_changes user_show group_show rows = Inr plan"
  shows "\<exists>ga. find_group_changes group_show
            (foldl diff_user no_user_changes
               (map (\<lambda>e. (e, fix_ipa_entry (projr (query_user user_show (user_login e)))))
                  (csv_entries_of rows)))
            (snd (fix_csv_group_names rows)) = Inr ga
        \<and> plan = with_group_add
            (foldl diff_user no_user_changes
               (map (\<lambda>e. (e, fix_ipa_entry (projr (query_user user_show (user_login e)))))
                  (csv_entries_of rows))) ga"
proof -
  obtain es gd where f: "fix_csv_group_names rows = (es, gd)" by (cases "fix_csv_group_names rows")
  let ?csv = "csv_entries_of rows"
  have csv: "?csv = fix_csv_zero_entries (fix_csv_emails es)"
    by (simp add: csv_entries_of_def f)
  from assms obtain ds where q: "query_ipa user_show (map user_login ?csv) = Inr ds"
    and pl: "plan_for group_show gd ?csv (fix_ipa_groups ds) = Inr plan"
    by (auto simp: main_changes_def f csv Let_def split: sum.splits)
  have "ds = map (\<lambda>u. projr (query_user user_show u)) (map user_login ?csv)"
    using q by (rule query_ipa_Inr)
  then have "fix_ipa_groups ds = map (\<lambda>e. fix_ipa_entry (projr (query_user user_show (user_login e)))) ?csv"
    by (simp add: fix_ipa_groups_def comp_def)
  then have "zip ?csv (fix_ipa_groups ds) =
      map (\<lambda>e. (e, fix_ipa_entry (projr (query_user user_show (user_login e))))) ?csv"
    by (simp add: zip_map_self)
  then show ?thesis
    using pl by (auto simp: plan_for_def find_user_differences_def f Let_def split: sum.splits)
qed

text \<open>
  C9. In the plan \<^verbatim>\<open>main\<close> builds, no login is a key of both \<^verbatim>\<open>user-add\<close> and
  \<^verbatim>\<open>user-mod\<close>, and every key of \<^verbatim>\<open>group-add\<close> is a key of \<^verbatim>\<open>group-add-member\<close>.
  The directory answers the lookups of one run as a function of the login.
\<close>

theorem plan_invariants:
  assumes "main_changes user_show group_show rows = Inr plan"
  shows "keys (user_add plan) \<inter> keys (user_mod plan) = {}
     \<and> keys (group_add plan) \<subseteq> keys (group_add_member plan)"
proof -
  let ?dir = "\<lambda>e. fix_ipa_entry (projr (query_user user_show (user_login e)))"
  let ?ps = "map (\<lambda>e. (e, ?dir e)) (csv_entries_of rows)"
  let ?ch = "foldl diff_user no_user_changes ?ps"
  obtain ga where ga: "find_group_changes group_show ?ch (snd (fix_csv_group_names rows)) = Inr ga"
    and plan: "plan = with_group_add ?ch ga"
    using main_changes_Inr [OF assms] by blast
  have "keys ga \<subseteq> keys (group_add_member ?ch)"
    using find_group_changes_from_keys [of group_show "snd (fix_csv_group_names rows)" "[]"
        "map fst (group_add_member ?ch)" ga] ga
    by (auto simp: find_group_changes_def keys_def)
  moreover have "keys (user_add ?ch) \<inter> keys (user_mod ?ch) = {}"
  proof (rule ccontr)
    assume "keys (user_add ?ch) \<inter> keys (user_mod ?ch) \<noteq> {}"
    then obtain k where a: "k \<in> keys (user_add ?ch)" and "k \<in> keys (user_mod ?ch)"
      by blast
    then obtain args where m: "(k, args) \<in> set (user_mod ?ch)"
      unfolding keys_def by force
    from user_add_loop [OF a] obtain new old where
      "(new, old) \<in> set ?ps" "user_login new = k" "\<not> nonempty old"
      by (auto simp: no_user_changes_def keys_def)
    then have 1: "\<not> nonempty (fix_ipa_entry (projr (query_user user_show k)))" by auto
    from user_mod_loop [OF m] obtain new' old' where
      "(new', old') \<in> set ?ps" "user_login new' = k" "nonempty old'"
      by (auto simp: no_user_changes_def)
    then have "nonempty (fix_ipa_entry (projr (query_user user_show k)))" by auto
    with 1 show False by simp
  qed
  ultimately show ?thesis by (simp add: plan with_group_add_def)
qed

theorem plan_invariants_witness:
  "main_changes known_directory no_such_group [jdoe_row, team_row] = Inr two_plan
   \<and> keys (user_add two_plan) \<inter> keys (user_mod two_plan) = {}
   \<and> keys (group_add two_plan) \<subseteq> keys (group_add_member two_plan)"
proof -
  have m: "main_changes known_directory no_such_group [jdoe_row, team_row] = Inr two_plan"
    by code_simp
  from plan_invariants [OF m] m show ?thesis by simp
qed

section \<open>A second run\<close>

lemma dropWhile_id: "xs = [] \<or> \<not> P (hd xs) \<Longrightarrow> dropWhile P xs = xs"
  by (cases xs) auto

lemma strip_ends:
  "strip s = [] \<or> (\<not> isspace (hd (strip s)) \<and> \<not> isspace (last (strip s)))"
proof (cases "strip s = []")
  case True
  then show ?thesis by simp
next
  case False
  let ?t = "dropWhile isspace s"
  let ?r = "dropWhile isspace (rev ?t)"
  have s: "strip s = rev ?r" by (simp add: strip_def)
  with False have r: "?r \<noteq> []" by simp
  then have "\<not> isspace (hd ?r)" by (rule hd_dropWhile)
  then have l: "\<not> isspace (last (strip s))"
    using r by (simp add: s last_rev)
  have "rev (takeWhile isspace (rev ?t) @ ?r) = rev (rev ?t)"
    by (simp only: takeWhile_dropWhile_id)
  then have t: "?t = strip s @ rev (takeWhile isspace (rev ?t))"
    by (simp only: s rev_append rev_rev_ident)
  then have "?t \<noteq> []" using False by (metis append_is_Nil_conv)
  then have "\<not> isspace (hd ?t)" by (rule hd_dropWhile)
  moreover have "hd ?t = hd (strip s)"
    using False by (subst t) simp
  ultimately show ?thesis using l by simp
qed

lemma strip_strip: "strip (strip s) = strip s"
proof (cases "strip s = []")
  case True
  have "strip [] = []" by (simp add: strip_def)
  with True show ?thesis by metis
next
  case False
  let ?u = "strip s"
  from False strip_ends [of s] have h: "\<not> isspace (hd ?u)" and l: "\<not> isspace (last ?u)"
    by auto
  have 1: "dropWhile isspace ?u = ?u" using h by (simp add: dropWhile_id)
  have "hd (rev ?u) = last ?u" using False by (simp add: hd_rev)
  then have 2: "dropWhile isspace (rev ?u) = rev ?u" using l by (simp add: dropWhile_id)
  have "strip ?u = rev (dropWhile isspace (rev (dropWhile isspace ?u)))"
    by (simp only: strip_def)
  then show ?thesis by (simp only: 1 2 rev_rev_ident)
qed

lemma set_diff_empty: "set a \<subseteq> set b \<Longrightarrow> set_diff a b = []"
  by (auto simp: set_diff_def filter_empty_conv)

lemma mod_args_carries: "carries new old \<Longrightarrow> mod_args new old = []"
  by (auto simp: carries_def mod_args_def differs_def filter_empty_conv list_all_iff strip_strip)

lemma diff_user_carries: "carries new old \<Longrightarrow> diff_user changes (new, old) = changes"
proof -
  assume c: "carries new old"
  then have "set (new_groups new) \<subseteq> set (old_groups old)"
    "set (old_groups old) \<subseteq> set (new_groups new)"
    by (auto simp: carries_def set_new_groups set_old_groups)
  then have "set_diff (new_groups new) (old_groups old) = []"
    "set_diff (old_groups old) (new_groups new) = []"
    by (simp_all add: set_diff_empty)
  moreover have "diff_attributes changes new old = changes"
    using c mod_args_carries [OF c] by (simp add: diff_attributes_def carries_def)
  ultimately show ?thesis
    by (simp add: diff_user_def add_members_def remove_members_def)
qed

lemma loop_unchanged:
  "\<forall>p \<in> set ps. diff_user changes p = changes \<Longrightarrow> foldl diff_user changes ps = changes"
  by (induction ps) auto

lemma query_ipa_all_Inr:
  "\<forall>u \<in> set usernames. \<exists>d. user_show u = Inr d \<Longrightarrow>
   query_ipa user_show usernames = Inr (map (\<lambda>u. projr (user_show u)) usernames)"
proof (induction usernames)
  case Nil
  then show ?case by simp
next
  case (Cons u us)
  then obtain d where "user_show u = Inr d" by auto
  then show ?case using Cons by (simp add: query_user_def)
qed

text \<open>
  C3. When every user of the import batch has a directory entry that carries the
  trimmed import values of the tracked attributes and the imported groups (with or
  without the default groups), as after the plan of a first run has been applied,
  \<^verbatim>\<open>main\<close> builds a plan whose five categories are empty. No group check is made.
\<close>

theorem second_run_no_changes:
  assumes "\<forall>e \<in> set (csv_entries_of rows).
      \<exists>d. user_show (user_login e) = Inr d \<and> carries e (fix_ipa_entry d)"
  shows "\<exists>plan. main_changes user_show group_show rows = Inr plan \<and> no_changes plan"
proof -
  obtain es gd where f: "fix_csv_group_names rows = (es, gd)" by (cases "fix_csv_group_names rows")
  let ?csv = "csv_entries_of rows"
  have csv: "fix_csv_zero_entries (fix_csv_emails es) = ?csv"
    by (simp add: csv_entries_of_def f)
  let ?ds = "map (\<lambda>u. projr (user_show u)) (map user_login ?csv)"
  have q: "query_ipa user_show (map user_login ?csv) = Inr ?ds"
    using assms by (intro query_ipa_all_Inr) auto
  have z: "zip ?csv (fix_ipa_groups ?ds) =
      map (\<lambda>e. (e, fix_ipa_entry (projr (user_show (user_login e))))) ?csv"
    by (simp add: fix_ipa_groups_def comp_def zip_map_self)
  have "\<forall>p \<in> set (zip ?csv (fix_ipa_groups ?ds)). diff_user no_user_changes p = no_user_changes"
    unfolding z using assms by (auto intro!: diff_user_carries)
  then have "find_user_differences ?csv (fix_ipa_groups ?ds) = no_user_changes"
    unfolding find_user_differences_def by (rule loop_unchanged)
  then have "plan_for group_show gd ?csv (fix_ipa_groups ?ds) =
      Inr (with_group_add no_user_changes [])"
    by (simp add: plan_for_def find_group_changes_def no_user_changes_def)
  then have "main_changes user_show group_show rows = Inr (with_group_add no_user_changes [])"
    by (simp add: main_changes_def f csv q)
  moreover have "no_changes (with_group_add no_user_changes [])"
    by (simp add: no_changes_def with_group_add_def no_user_changes_def)
  ultimately show ?thesis by blast
qed

theorem second_run_no_changes_witness:
  "list_all
     (\<lambda>e. case applied_directory (user_login e) of
             Inr d \<Rightarrow> carries e (fix_ipa_entry d)
           | Inl err \<Rightarrow> False)
     (csv_entries_of [jdoe_row, team_row])
   \<and> main_changes applied_directory no_such_group [jdoe_row, team_row] = Inr empty_plan
   \<and> no_changes empty_plan"
proof -
  have a: "list_all
     (\<lambda>e. case applied_directory (user_login e) of
             Inr d \<Rightarrow> carries e (fix_ipa_entry d)
           | Inl err \<Rightarrow> False)
     (csv_entries_of [jdoe_row, team_row])"
    by code_simp
  have h: "\<forall>e \<in> set (csv_entries_of [jdoe_row, team_row]).
      \<exists>d. applied_directory (user_login e) = Inr d \<and> carries e (fix_ipa_entry d)"
  proof
    fix e
    assume "e \<in> set (csv_entries_of [jdoe_row, team_row])"
    with a have "case applied_directory (user_login e) of
        Inr d \<Rightarrow> carries e (fix_ipa_entry d) | Inl err \<Rightarrow> False"
      by (simp add: list_all_iff)
    then show "\<exists>d. applied_directory (user_login e) = Inr d \<and> carries e (fix_ipa_entry d)"
      by (cases "applied_directory (user_login e)") auto
  qed
  have m: "main_changes applied_directory no_such_group [jdoe_row, team_row] = Inr empty_plan"
    by code_simp
  from second_run_no_changes [OF h, of no_such_group] m have "no_changes empty_plan" by auto
  with a m show ?thesis by simp
qed

end
